theory Spec2Isabelle
  imports Main "HOL-Library.Word"
begin

unbundle bit_operations_syntax

section \<open>Byte strings\<close>

text \<open>
  A Go \<open>string\<close> and a Go \<open>[]byte\<close> are both sequences of bytes; both are modelled as
  \<open>string\<close> (a list of 8-bit \<open>char\<close>), so the conversions \<open>[]byte(s)\<close> and
  \<open>string(b)\<close> are the identity.
\<close>

abbreviation SP :: char where "SP \<equiv> CHR '' ''"
abbreviation LF :: char where "LF \<equiv> CHR 0x0A"
abbreviation CR :: char where "CR \<equiv> CHR 0x0D"

subsection \<open>Package strings\<close>

definition HasPrefix :: "string \<Rightarrow> string \<Rightarrow> bool" where
  "HasPrefix s pre = (length pre \<le> length s \<and> take (length pre) s = pre)"

definition HasSuffix :: "string \<Rightarrow> string \<Rightarrow> bool" where
  "HasSuffix s suf = (length suf \<le> length s \<and> drop (length s - length suf) s = suf)"

definition TrimPrefix :: "string \<Rightarrow> string \<Rightarrow> string" where
  "TrimPrefix s pre = (if HasPrefix s pre then drop (length pre) s else s)"

definition TrimSuffix :: "string \<Rightarrow> string \<Rightarrow> string" where
  "TrimSuffix s suf = (if HasSuffix s suf then take (length s - length suf) s else s)"

text \<open>\<open>strings.Split(s, " ")\<close>: the fields between single spaces; never an empty list.\<close>

fun Split :: "string \<Rightarrow> string list" where
  "Split [] = [[]]"
| "Split (c # cs) =
     (if c = SP then [] # Split cs
      else (c # hd (Split cs)) # tl (Split cs))"

text \<open>\<open>strings.Join(parts, " ")\<close>.\<close>

fun Join :: "string list \<Rightarrow> string" where
  "Join [] = []"
| "Join [p] = p"
| "Join (p # q # ps) = p @ [SP] @ Join (q # ps)"

text \<open>
  \<open>strings.ToUpper\<close>: a string of ASCII bytes only has its letters \<open>a\<close>..\<open>z\<close> moved
  to \<open>A\<close>..\<open>Z\<close>; any other string goes through \<open>strings.Map(unicode.ToUpper, s)\<close>,
  which needs the Unicode case tables of the Go library. Those tables are the parameter
  \<open>mapUpper\<close>.
\<close>

definition isASCII :: "string \<Rightarrow> bool" where
  "isASCII s = (\<forall>c \<in> set s. (of_char c :: nat) < 128)"

definition upperByte :: "char \<Rightarrow> char" where
  "upperByte c =
     (if (of_char (CHR ''a'') :: nat) \<le> of_char c \<and> (of_char c :: nat) \<le> of_char (CHR ''z'')
      then char_of ((of_char c :: nat) - 32) else c)"

definition ToUpper :: "(string \<Rightarrow> string) \<Rightarrow> string \<Rightarrow> string" where
  "ToUpper mapUpper s = (if isASCII s then map upperByte s else mapUpper s)"

subsection \<open>Hexadecimal\<close>

definition hextable :: string where
  "hextable = ''0123456789abcdef''"

definition hexDigit :: "nat \<Rightarrow> char" where
  "hexDigit n = hextable ! (n mod 16)"

text \<open>\<open>hex.EncodeToString\<close>: two lowercase digits for each byte.\<close>

fun hexEncodeToString :: "string \<Rightarrow> string" where
  "hexEncodeToString [] = []"
| "hexEncodeToString (b # bs) =
     hexDigit ((of_char b :: nat) div 16) # hexDigit (of_char b :: nat) # hexEncodeToString bs"

text \<open>\<open>fmt.Sprintf("%08x", v)\<close> for a \<open>uint32\<close>: eight lowercase digits, zero padded.\<close>

definition Sprintf_08x :: "32 word \<Rightarrow> string" where
  "Sprintf_08x v =
     map (\<lambda>i. hexDigit (unat (drop_bit (4 * i) v AND 15))) [7, 6, 5, 4, 3, 2, 1, 0]"

subsection \<open>Package hash/crc32\<close>

definition CRCPolynomial :: "32 word" where
  "CRCPolynomial = 0xEDB88320"

text \<open>The inner loop of the table construction: eight shift steps on one entry.\<close>

fun crcShift :: "nat \<Rightarrow> 32 word \<Rightarrow> 32 word \<Rightarrow> 32 word" where
  "crcShift 0 poly crc = crc"
| "crcShift (Suc j) poly crc =
     crcShift j poly
       (if crc AND 1 = 1 then drop_bit 1 crc XOR poly else drop_bit 1 crc)"

definition MakeTable :: "32 word \<Rightarrow> 8 word \<Rightarrow> 32 word" where
  "MakeTable poly i = crcShift 8 poly (ucast i)"

fun crcUpdate :: "32 word \<Rightarrow> (8 word \<Rightarrow> 32 word) \<Rightarrow> string \<Rightarrow> 32 word" where
  "crcUpdate crc tab [] = crc"
| "crcUpdate crc tab (v # p) =
     crcUpdate (tab (ucast crc XOR of_char v) XOR drop_bit 8 crc) tab p"

definition Checksum :: "string \<Rightarrow> (8 word \<Rightarrow> 32 word) \<Rightarrow> 32 word" where
  "Checksum data tab = NOT (crcUpdate (NOT 0) tab data)"

subsection \<open>Package encoding/base64, the standard padded encoding\<close>

definition encodeStd :: string where
  "encodeStd = ''ABCDEFGHIJKLMNOPQRSTUVWXYZabcdefghijklmnopqrstuvwxyz0123456789+/''"

definition enc64 :: "nat \<Rightarrow> char" where
  "enc64 n = encodeStd ! (n mod 64)"

fun EncodeToString :: "string \<Rightarrow> string" where
  "EncodeToString [] = []"
| "EncodeToString [a] =
     (let val = (of_char a :: nat) * 65536
      in [enc64 (val div 262144), enc64 (val div 4096), CHR ''='', CHR ''=''])"
| "EncodeToString [a, b] =
     (let val = (of_char a :: nat) * 65536 + of_char b * 256
      in [enc64 (val div 262144), enc64 (val div 4096), enc64 (val div 64), CHR ''=''])"
| "EncodeToString (a # b # c # src) =
     (let val = (of_char a :: nat) * 65536 + of_char b * 256 + of_char c
      in [enc64 (val div 262144), enc64 (val div 4096), enc64 (val div 64), enc64 val]
         @ EncodeToString src)"

text \<open>The decode map: the position of a byte in the alphabet, if it is there.\<close>

fun indexOf :: "char \<Rightarrow> string \<Rightarrow> nat option" where
  "indexOf c [] = None"
| "indexOf c (x # xs) =
     (if c = x then Some 0 else map_option Suc (indexOf c xs))"

definition decodeMap :: "char \<Rightarrow> nat option" where
  "decodeMap c = indexOf c encodeStd"

text \<open>
  One quantum of four characters gives three bytes; padding is accepted in the last
  quantum only, and the bits of a padded quantum that belong to no byte are dropped
  (the standard encoding is not strict).
\<close>

fun decodeQuanta :: "string \<Rightarrow> string option" where
  "decodeQuanta [] = Some []"
| "decodeQuanta (c1 # c2 # c3 # c4 # src) =
     (case (decodeMap c1, decodeMap c2) of
        (Some d0, Some d1) \<Rightarrow>
          (case decodeMap c3 of
             Some d2 \<Rightarrow>
               (case decodeMap c4 of
                  Some d3 \<Rightarrow>
                    (let val = d0 * 262144 + d1 * 4096 + d2 * 64 + d3
                     in map_option
                          (\<lambda>r. [char_of (val div 65536), char_of (val div 256), char_of val] @ r)
                          (decodeQuanta src))
                | None \<Rightarrow>
                    (if c4 = CHR ''='' \<and> src = []
                     then (let val = d0 * 262144 + d1 * 4096 + d2 * 64
                           in Some [char_of (val div 65536), char_of (val div 256)])
                     else None))
           | None \<Rightarrow>
               (if c3 = CHR ''='' \<and> c4 = CHR ''='' \<and> src = []
                then (let val = d0 * 262144 + d1 * 4096
                      in Some [char_of (val div 65536)])
                else None))
      | _ \<Rightarrow> None)"
| "decodeQuanta _ = None"

text \<open>\<open>DecodeString\<close> ignores carriage returns and line feeds anywhere in its input.\<close>

definition DecodeString :: "string \<Rightarrow> string option" where
  "DecodeString s = decodeQuanta (filter (\<lambda>c. c \<noteq> CR \<and> c \<noteq> LF) s)"

subsection \<open>Package fmt: printing and scanning an int\<close>

definition digitChar :: "nat \<Rightarrow> char" where
  "digitChar n = char_of (48 + n mod 10)"

fun digits :: "nat \<Rightarrow> string" where
  "digits n = (if n < 10 then [digitChar n] else digits (n div 10) @ [digitChar n])"

declare digits.simps [simp del]

text \<open>\<open>fmt.Sprintf("%d", n)\<close> for an \<open>int\<close> (64 bits, signed).\<close>

definition Sprintf_d :: "64 word \<Rightarrow> string" where
  "Sprintf_d n =
     (if sint n < 0 then CHR ''-'' # digits (nat (- sint n)) else digits (nat (sint n)))"

text \<open>
  The scanner's white space: the space runes of its table, in UTF-8, other than the
  line feed. \<open>spaceRune s\<close> is the number of bytes of such a rune at the head of \<open>s\<close>,
  0 when there is none.
\<close>

definition spaceRune :: "string \<Rightarrow> nat" where
  "spaceRune s =
     (case s of
        [] \<Rightarrow> 0
      | c # s1 \<Rightarrow>
          if c \<in> {CHR 0x09, CHR 0x0B, CHR 0x0C, CHR 0x0D, CHR 0x20} then 1
          else if c = CHR 0xC2 then
            (case s1 of
               [] \<Rightarrow> 0
             | d # _ \<Rightarrow> if d = CHR 0x85 \<or> d = CHR 0xA0 then 2 else 0)
          else
            (case s1 of
               d # e # _ \<Rightarrow>
                 if [c, d, e] = [CHR 0xE1, CHR 0x9A, CHR 0x80] then 3
                 else if c = CHR 0xE2 \<and> d = CHR 0x80 \<and>
                         (128 \<le> (of_char e :: nat) \<and> (of_char e :: nat) \<le> 138
                          \<or> e \<in> {CHR 0xA8, CHR 0xA9, CHR 0xAF}) then 3
                 else if [c, d, e] = [CHR 0xE2, CHR 0x81, CHR 0x9F] then 3
                 else if [c, d, e] = [CHR 0xE3, CHR 0x80, CHR 0x80] then 3
                 else 0
             | _ \<Rightarrow> 0))"

text \<open>\<open>SkipSpace\<close>: \<open>None\<close> is the scanner's error "unexpected newline".\<close>

function SkipSpace :: "string \<Rightarrow> string option" where
  "SkipSpace s =
     (if s = [] then Some []
      else if hd s = LF then None
      else if spaceRune s = 0 then Some s
      else SkipSpace (drop (spaceRune s) s))"
  by pat_completeness auto
termination
  by (relation "measure length") (auto simp: neq_Nil_conv)

declare SkipSpace.simps [simp del]

definition isDigit :: "char \<Rightarrow> bool" where
  "isDigit c = (48 \<le> (of_char c :: nat) \<and> (of_char c :: nat) \<le> 57)"

definition digitVal :: "char \<Rightarrow> nat" where
  "digitVal c = (of_char c :: nat) - 48"

definition parseDigits :: "string \<Rightarrow> int" where
  "parseDigits tok = foldl (\<lambda>acc c. 10 * acc + int (digitVal c)) 0 tok"

text \<open>
  \<open>fmt.Sscanf(s, "%d", &n)\<close> for an \<open>int\<close>: white space is skipped, one sign is accepted,
  then the longest run of decimal digits is the token, which must not be empty and must
  fit 64 bits. What follows the token is not looked at.
\<close>

definition Sscanf_d :: "string \<Rightarrow> 64 word option" where
  "Sscanf_d s =
     (case SkipSpace s of
        None \<Rightarrow> None
      | Some s1 \<Rightarrow>
          (let neg = (s1 \<noteq> [] \<and> hd s1 = CHR ''-'');
               s2 = (if s1 \<noteq> [] \<and> (hd s1 = CHR ''+'' \<or> hd s1 = CHR ''-'') then tl s1 else s1);
               tok = takeWhile isDigit s2;
               v = (if neg then - parseDigits tok else parseDigits tok)
           in if tok = [] then None
              else if v < - (2 ^ 63) \<or> 2 ^ 63 \<le> v then None
              else Some (word_of_int v)))"

section \<open>The frame codec\<close>

record frame =
  RequestID :: string
  Code :: string
  Payload :: string
  BodyLength :: "64 word"
  BodyChecksum :: string

text \<open>An error of the operating system or of the transport, by its message.\<close>

type_synonym oserror = string

datatype error =
    ErrGenerateRequestID oserror
  | ErrInvalidFramePrefix
  | ErrInvalidFrameFormat
  | ErrInvalidBodyLength
  | ErrInvalidChecksumFormat
  | ErrInvalidBodyFormat
  | ErrInvalidPayloadEncoding
  | ErrChecksumMismatch
  | ErrReadOnlyNamespace
  | ErrCreateFrame error
  | ErrSendFrame oserror
  | ErrFlushFrame oserror
  | ErrReadResponse oserror
  | ErrParseResponse error
  | ErrRequestFailed string
  | ErrSendNegotiation oserror
  | ErrFlushNegotiation oserror
  | ErrReadNegotiation oserror

definition ProtocolPrefix :: string where
  "ProtocolPrefix = ''V2 ''"

definition NegotiationReq :: string where
  "NegotiationReq = ''NEGOTIATE V2'' @ [LF]"

definition NegotiationResp :: string where
  "NegotiationResp = ''V2_OK'' @ [LF]"

definition buildBodyString :: "frame \<Rightarrow> string" where
  "buildBodyString f =
     (let parts = [RequestID f, Code f];
          parts = (if length (Payload f) > 0
                   then parts @ [EncodeToString (Payload f)] else parts)
      in Join parts)"

definition bodyChecksum :: "string \<Rightarrow> string" where
  "bodyChecksum body = Sprintf_08x (Checksum body (MakeTable CRCPolynomial))"

definition updateBodyMetadata :: "frame \<Rightarrow> frame" where
  "updateBodyMetadata f =
     (let body = buildBodyString f
      in f\<lparr>BodyLength := of_nat (length body), BodyChecksum := bodyChecksum body\<rparr>)"

text \<open>
  \<open>newFrame\<close> reads four bytes from the system's random source; \<open>rnd\<close> is what that
  read gives: an error, or the bytes.
\<close>

definition newFrame ::
  "(string \<Rightarrow> string) \<Rightarrow> oserror + string \<Rightarrow> string \<Rightarrow> string \<Rightarrow> error + frame" where
  "newFrame mapUpper rnd code payload =
     (case rnd of
        Inl err \<Rightarrow> Inl (ErrGenerateRequestID err)
      | Inr randBytes \<Rightarrow>
          Inr (updateBodyMetadata
                 \<lparr>RequestID = hexEncodeToString randBytes,
                  Code = ToUpper mapUpper code,
                  Payload = payload,
                  BodyLength = 0,
                  BodyChecksum = []\<rparr>))"

definition newFrameWithString ::
  "(string \<Rightarrow> string) \<Rightarrow> oserror + string \<Rightarrow> string \<Rightarrow> string \<Rightarrow> error + frame" where
  "newFrameWithString mapUpper rnd code payload = newFrame mapUpper rnd code payload"

definition Encode :: "frame \<Rightarrow> string" where
  "Encode f =
     ProtocolPrefix @ Sprintf_d (BodyLength f) @ [SP] @ BodyChecksum f @ [SP]
       @ buildBodyString f @ [LF]"

definition ParseFrame :: "string \<Rightarrow> error + frame" where
  "ParseFrame data =
     (if \<not> HasPrefix data ProtocolPrefix then Inl ErrInvalidFramePrefix
      else
        let trimmed = TrimPrefix (TrimSuffix data [LF]) ProtocolPrefix;
            parts = Split trimmed
        in if length parts < 3 then Inl ErrInvalidFrameFormat
           else
             case Sscanf_d (parts ! 0) of
               None \<Rightarrow> Inl ErrInvalidBodyLength
             | Some bodyLength \<Rightarrow>
                 let checksum = parts ! 1
                 in if length checksum \<noteq> 8 then Inl ErrInvalidChecksumFormat
                    else
                      let bodyParts = drop 2 parts
                      in if length bodyParts < 2 then Inl ErrInvalidBodyFormat
                         else
                           let f = \<lparr>RequestID = bodyParts ! 0,
                                    Code = bodyParts ! 1,
                                    Payload = [],
                                    BodyLength = bodyLength,
                                    BodyChecksum = checksum\<rparr>
                           in case (if length bodyParts > 2
                                    then (case DecodeString (bodyParts ! 2) of
                                            None \<Rightarrow> Inl ErrInvalidPayloadEncoding
                                          | Some payload \<Rightarrow> Inr (f\<lparr>Payload := payload\<rparr>))
                                    else Inr f) of
                                Inl err \<Rightarrow> Inl err
                              | Inr f \<Rightarrow>
                                  if bodyChecksum (buildBodyString f) \<noteq> checksum
                                  then Inl ErrChecksumMismatch
                                  else Inr f)"

section \<open>The connection\<close>

text \<open>
  The buffered reader and writer over the connection belong to the Go library and to the
  transport. They are a parameter: three operations on a state \<open>'s\<close> of the outside
  world, each giving its result and the next state. \<open>ReadString\<close> is the read up to and
  including the next line feed; as in Go it gives the bytes it has read together with
  the error, if any.
\<close>

record 's ReadWriter =
  WriteString :: "string \<Rightarrow> 's \<Rightarrow> oserror option \<times> 's"
  Flush :: "'s \<Rightarrow> oserror option \<times> 's"
  ReadString :: "'s \<Rightarrow> (string \<times> oserror option) \<times> 's"

text \<open>\<open>Negotiate\<close> returns the pair of Go: the flag, and the error or \<open>None\<close>.\<close>

definition Negotiate :: "'s ReadWriter \<Rightarrow> 's \<Rightarrow> (bool \<times> error option) \<times> 's" where
  "Negotiate conn st =
     (case WriteString conn NegotiationReq st of
        (Some err, st1) \<Rightarrow> ((False, Some (ErrSendNegotiation err)), st1)
      | (None, st1) \<Rightarrow>
          (case Flush conn st1 of
             (Some err, st2) \<Rightarrow> ((False, Some (ErrFlushNegotiation err)), st2)
           | (None, st2) \<Rightarrow>
               (case ReadString conn st2 of
                  ((resp, Some err), st3) \<Rightarrow> ((False, Some (ErrReadNegotiation err)), st3)
                | ((resp, None), st3) \<Rightarrow> ((resp = NegotiationResp, None), st3))))"

section \<open>The client\<close>

definition sendRequest ::
  "(string \<Rightarrow> string) \<Rightarrow> 's ReadWriter \<Rightarrow> oserror + string \<Rightarrow> string \<Rightarrow> string \<Rightarrow> 's
     \<Rightarrow> (error + string) \<times> 's" where
  "sendRequest mapUpper rw rnd code payload st =
     (case newFrameWithString mapUpper rnd code payload of
        Inl err \<Rightarrow> (Inl (ErrCreateFrame err), st)
      | Inr frame \<Rightarrow>
          (case WriteString rw (Encode frame) st of
             (Some err, st1) \<Rightarrow> (Inl (ErrSendFrame err), st1)
           | (None, st1) \<Rightarrow>
               (case Flush rw st1 of
                  (Some err, st2) \<Rightarrow> (Inl (ErrFlushFrame err), st2)
                | (None, st2) \<Rightarrow>
                    (case ReadString rw st2 of
                       ((response, Some err), st3) \<Rightarrow> (Inl (ErrReadResponse err), st3)
                     | ((response, None), st3) \<Rightarrow>
                         (case ParseFrame response of
                            Inl err \<Rightarrow> (Inl (ErrParseResponse err), st3)
                          | Inr respFrame \<Rightarrow>
                              if Code respFrame \<noteq> ''SUCCESS''
                              then (Inl (ErrRequestFailed (Code respFrame)), st3)
                              else (Inr (Payload respFrame), st3))))))"

definition Get ::
  "(string \<Rightarrow> string) \<Rightarrow> 's ReadWriter \<Rightarrow> oserror + string \<Rightarrow> string \<Rightarrow> 's
     \<Rightarrow> (error + string) \<times> 's" where
  "Get mapUpper rw rnd payload st = sendRequest mapUpper rw rnd ''GET'' payload st"

definition Keys ::
  "(string \<Rightarrow> string) \<Rightarrow> 's ReadWriter \<Rightarrow> oserror + string \<Rightarrow> 's
     \<Rightarrow> (error + string) \<times> 's" where
  "Keys mapUpper rw rnd st = sendRequest mapUpper rw rnd ''KEYS'' [] st"

definition Delete ::
  "(string \<Rightarrow> string) \<Rightarrow> 's ReadWriter \<Rightarrow> oserror + string \<Rightarrow> string \<Rightarrow> 's
     \<Rightarrow> error option \<times> 's" where
  "Delete mapUpper rw rnd payload st =
     (case sendRequest mapUpper rw rnd ''DELETE'' payload st of
        (Inl err, st1) \<Rightarrow> (Some err, st1)
      | (Inr _, st1) \<Rightarrow> (None, st1))"

definition Put ::
  "(string \<Rightarrow> string) \<Rightarrow> 's ReadWriter \<Rightarrow> oserror + string \<Rightarrow> string \<Rightarrow> string \<Rightarrow> 's
     \<Rightarrow> error option \<times> 's" where
  "Put mapUpper rw rnd key val st =
     (if HasPrefix key ''sdc:'' then (Some ErrReadOnlyNamespace, st)
      else
        let encodedKey = EncodeToString key;
            encodedValue = EncodeToString val;
            concatenated = encodedKey @ [SP] @ encodedValue
        in case sendRequest mapUpper rw rnd ''PUT'' concatenated st of
             (Inl err, st1) \<Rightarrow> (Some err, st1)
           | (Inr _, st1) \<Rightarrow> (None, st1))"

text \<open>
  A scripted connection for concrete runs: \<open>buffered\<close> holds what the writer has taken
  and not yet flushed, \<open>wire\<close> what has reached the peer, \<open>inbox\<close> what the peer has
  sent and the reader has not yet consumed. A read that meets the end of \<open>inbox\<close>
  before a line feed gives what is left together with the error \<open>EOF\<close>.
\<close>

record stub =
  buffered :: string
  wire :: string
  inbox :: string

definition stubRW :: "stub ReadWriter" where
  "stubRW =
     \<lparr>WriteString = (\<lambda>s st. (None, st\<lparr>buffered := buffered st @ s\<rparr>)),
      Flush = (\<lambda>st. (None, st\<lparr>wire := wire st @ buffered st, buffered := []\<rparr>)),
      ReadString = (\<lambda>st.
        if LF \<in> set (inbox st)
        then ((takeWhile (\<lambda>c. c \<noteq> LF) (inbox st) @ [LF], None),
              st\<lparr>inbox := tl (dropWhile (\<lambda>c. c \<noteq> LF) (inbox st))\<rparr>)
        else ((inbox st, Some ''EOF''), st\<lparr>inbox := []\<rparr>))\<rparr>"

section \<open>Facts about the library functions\<close>

subsection \<open>Splitting and the base64 alphabet\<close>

lemma Split_not_Nil: "Split s \<noteq> []"
  by (induction s) auto

lemma Split_no_space: "SP \<notin> set a \<Longrightarrow> Split a = [a]"
  by (induction a) auto

lemma Split_field: "SP \<notin> set a \<Longrightarrow> Split (a @ SP # b) = a # Split b"
  by (induction a) auto

lemma set_encodeStd: "c \<in> set encodeStd \<Longrightarrow> c \<noteq> SP \<and> c \<noteq> LF \<and> c \<noteq> CR \<and> c \<noteq> CHR ''=''"
  unfolding encodeStd_def by auto

lemma enc64_in: "enc64 n \<in> set encodeStd"
  unfolding enc64_def by (rule nth_mem) (simp add: encodeStd_def)

lemma enc64_plain: "enc64 n \<noteq> SP" "enc64 n \<noteq> LF" "enc64 n \<noteq> CR" "enc64 n \<noteq> CHR ''=''"
  using set_encodeStd [OF enc64_in [of n]] by auto

lemma EncodeToString_chars:
  "c \<in> set (EncodeToString p) \<Longrightarrow> c \<noteq> SP \<and> c \<noteq> LF \<and> c \<noteq> CR"
  by (induction p rule: EncodeToString.induct) (auto simp: Let_def enc64_plain)

lemma indexOf_nth: "distinct xs \<Longrightarrow> i < length xs \<Longrightarrow> indexOf (xs ! i) xs = Some i"
proof (induction xs arbitrary: i)
  case Nil then show ?case by simp
next
  case (Cons x xs)
  show ?case
  proof (cases i)
    case 0 then show ?thesis by simp
  next
    case (Suc j)
    with Cons.prems have "xs ! j \<noteq> x" by auto
    with Suc Cons show ?thesis by auto
  qed
qed

lemma distinct_encodeStd: "distinct encodeStd"
  unfolding encodeStd_def by simp

lemma decodeMap_enc64: "decodeMap (enc64 n) = Some (n mod 64)"
  unfolding decodeMap_def enc64_def
  by (rule indexOf_nth [OF distinct_encodeStd]) (simp add: encodeStd_def)

subsection \<open>Sextets and bytes\<close>

lemma of_char_lt: "(of_char c :: nat) < 256"
  by (metis of_char_mod_256 mod_less_divisor zero_less_numeral)

lemma sextets:
  fixes v :: nat
  assumes "v < 16777216"
  shows "(v div 262144) mod 64 * 262144 + (v div 4096) mod 64 * 4096
           + (v div 64) mod 64 * 64 + v mod 64 = v"
proof -
  define v1 where "v1 = v div 64"
  define v2 where "v2 = v1 div 64"
  define v3 where "v3 = v2 div 64"
  have e1: "v div 4096 = v2" unfolding v2_def v1_def by (simp add: div_mult2_eq [symmetric])
  have e2: "v div 262144 = v3" unfolding v3_def v2_def v1_def by (simp add: div_mult2_eq [symmetric])
  have "v3 < 64" using assms unfolding e2 [symmetric] by simp
  then have m3: "v3 mod 64 = v3" by simp
  have d0: "v = 64 * v1 + v mod 64" unfolding v1_def by simp
  have d1: "v1 = 64 * v2 + v1 mod 64" unfolding v2_def by simp
  have d2: "v2 = 64 * v3 + v2 mod 64" unfolding v3_def by simp
  have "v3 * 262144 + v2 mod 64 * 4096 + v1 mod 64 * 64 + v mod 64 = v"
    using d0 d1 d2 by linarith
  then show ?thesis unfolding e1 e2 m3 v1_def [symmetric] by simp
qed

lemma div_add_small: "r < m \<Longrightarrow> (a * m + r) div m = (a::nat)"
  by simp

lemma char_of_byte: "char_of (k * 256 + (of_char c :: nat)) = c"
proof -
  have "(k * 256 + (of_char c :: nat)) mod 256 = of_char c mod 256"
    by (metis mod_mult_self3)
  then have "char_of (k * 256 + (of_char c :: nat)) = char_of (of_char c :: nat)"
    by (simp only: char_of_eq_iff take_bit_eq_mod) simp
  then show ?thesis by simp
qed

lemma bytes_of_val:
  fixes a b c :: char
  assumes v: "v = (of_char a :: nat) * 65536 + (of_char b * 256 + of_char c)"
  shows "v < 16777216" "char_of (v div 65536) = a" "char_of (v div 256) = b" "char_of v = c"
proof -
  have la: "(of_char a :: nat) < 256" and lb: "(of_char b :: nat) < 256"
    and lc: "(of_char c :: nat) < 256" by (rule of_char_lt)+
  show "v < 16777216" using la lb lc unfolding v by linarith
  have "(of_char b :: nat) * 256 + of_char c < 65536" using lb lc by linarith
  then have "v div 65536 = of_char a" unfolding v by (rule div_add_small)
  then show "char_of (v div 65536) = a" by simp
  have v': "v = (of_char a * 256 + of_char b) * 256 + of_char c" unfolding v by simp
  have "v div 256 = of_char a * 256 + of_char b" unfolding v' using lc by (rule div_add_small)
  then show "char_of (v div 256) = b" using char_of_byte [of "of_char a" b] by simp
  show "char_of v = c" unfolding v' by (rule char_of_byte)
qed

lemma decodeMap_pad: "decodeMap (CHR ''='') = None"
  by (simp add: decodeMap_def encodeStd_def)

lemma decodeQuanta_pad2:
  "w = x mod 64 * 262144 + y mod 64 * 4096 \<Longrightarrow>
   decodeQuanta [enc64 x, enc64 y, CHR ''='', CHR ''=''] = Some [char_of (w div 65536)]"
  by (simp add: decodeMap_enc64 decodeMap_pad Let_def)

lemma decodeQuanta_pad1:
  "w = x mod 64 * 262144 + y mod 64 * 4096 + z mod 64 * 64 \<Longrightarrow>
   decodeQuanta [enc64 x, enc64 y, enc64 z, CHR ''=''] =
     Some [char_of (w div 65536), char_of (w div 256)]"
  by (simp add: decodeMap_enc64 decodeMap_pad Let_def)

lemma decodeQuanta_full:
  "w = x mod 64 * 262144 + y mod 64 * 4096 + z mod 64 * 64 + u mod 64 \<Longrightarrow>
   decodeQuanta src = Some r \<Longrightarrow>
   decodeQuanta (enc64 x # enc64 y # enc64 z # enc64 u # src) =
     Some (char_of (w div 65536) # char_of (w div 256) # char_of w # r)"
  by (simp add: decodeMap_enc64 Let_def)

lemma div_div_64: "(v::nat) div 64 div 64 = v div 4096" "(v::nat) div 64 div 64 div 64 = v div 262144"
  by (simp_all add: div_mult2_eq [symmetric])

lemma dvd_consts: "(4096::nat) dvd 65536" "(64::nat) dvd 256" "(64::nat) dvd 65536"
  by simp_all

lemma mod_4096: "(4096::nat) dvd v \<Longrightarrow> v div 64 mod 64 = 0 \<and> v mod 64 = 0"
proof -
  assume "4096 dvd v"
  then obtain k where k: "v = 4096 * k" by (auto simp: dvd_def)
  have "v div 64 = 64 * k" unfolding k by simp
  moreover have "v mod 64 = 0" unfolding k by simp
  ultimately show ?thesis by simp
qed

lemma val1_zero: "((a::nat) * 65536) div 64 mod 64 = 0" "((a::nat) * 65536) mod 64 = 0"
  using mod_4096 [OF dvd_mult [OF dvd_consts(1), of a]] by simp_all

lemma val2_zero: "((a::nat) * 65536 + b * 256) mod 64 = 0"
  using dvd_add [OF dvd_mult [OF dvd_consts(3), of a] dvd_mult [OF dvd_consts(2), of b]] by simp

lemma decode_encode_quanta: "decodeQuanta (EncodeToString p) = Some p"
proof (induction p rule: EncodeToString.induct)
  case 1
  then show ?case by simp
next
  case (2 a)
  define v where "v = (of_char a :: nat) * 65536 + (of_char (CHR 0x00) * 256 + of_char (CHR 0x00))"
  have v0: "v = (of_char a :: nat) * 65536" unfolding v_def by simp
  have enc: "EncodeToString [a] = [enc64 (v div 262144), enc64 (v div 4096), CHR ''='', CHR ''='']"
    unfolding v0 by (simp add: Let_def)
  have z: "v div 64 mod 64 = 0" "v mod 64 = 0" unfolding v0 by (rule val1_zero)+
  have "v div 262144 mod 64 * 262144 + v div 4096 mod 64 * 4096 = v"
    using sextets [OF bytes_of_val(1) [OF v_def]] unfolding z
    by (simp only: mult_zero_left add_0_right)
  from decodeQuanta_pad2 [OF this [symmetric]] bytes_of_val(2) [OF v_def]
  show ?case unfolding enc by simp
next
  case (3 a b)
  define v where "v = (of_char a :: nat) * 65536 + (of_char b * 256 + of_char (CHR 0x00))"
  have v0: "v = (of_char a :: nat) * 65536 + of_char b * 256" unfolding v_def by simp
  have enc: "EncodeToString [a, b] =
      [enc64 (v div 262144), enc64 (v div 4096), enc64 (v div 64), CHR ''='']"
    unfolding v0 by (simp add: Let_def)
  have z: "v mod 64 = 0" unfolding v0 by (rule val2_zero)
  have "v div 262144 mod 64 * 262144 + v div 4096 mod 64 * 4096 + v div 64 mod 64 * 64 = v"
    using sextets [OF bytes_of_val(1) [OF v_def]] unfolding z
    by (simp only: add_0_right)
  from decodeQuanta_pad1 [OF this [symmetric]] bytes_of_val(2,3) [OF v_def]
  show ?case unfolding enc by simp
next
  case (4 a b c src)
  define v where "v = (of_char a :: nat) * 65536 + (of_char b * 256 + of_char c)"
  have enc: "EncodeToString (a # b # c # src) =
      enc64 (v div 262144) # enc64 (v div 4096) # enc64 (v div 64) # enc64 v # EncodeToString src"
    unfolding v_def by (simp add: Let_def add.assoc)
  have "v div 262144 mod 64 * 262144 + v div 4096 mod 64 * 4096 + v div 64 mod 64 * 64
      + v mod 64 = v"
    by (rule sextets [OF bytes_of_val(1) [OF v_def]])
  from decodeQuanta_full [OF this [symmetric] 4] bytes_of_val(2,3,4) [OF v_def]
  show ?case unfolding enc by simp
qed

lemma DecodeString_EncodeToString: "DecodeString (EncodeToString p) = Some p"
proof -
  have "filter (\<lambda>c. c \<noteq> CR \<and> c \<noteq> LF) (EncodeToString p) = EncodeToString p"
    using EncodeToString_chars by (simp add: filter_id_conv)
  then show ?thesis by (simp add: DecodeString_def decode_encode_quanta)
qed

subsection \<open>Printing and scanning the length\<close>

lemma of_char_digitChar: "(of_char (digitChar n) :: nat) = 48 + n mod 10"
proof -
  have "(48 + n mod 10) mod 256 = 48 + n mod 10"
    by (rule mod_less) (use mod_less_divisor [of 10 n] in linarith)
  then show ?thesis by (simp add: digitChar_def)
qed

lemma isDigit_digitChar: "isDigit (digitChar n)"
  using mod_less_divisor [of 10 n] by (simp add: isDigit_def of_char_digitChar del: mod_less_divisor)

lemma digitVal_digitChar: "digitVal (digitChar n) = n mod 10"
  by (simp add: digitVal_def of_char_digitChar)

lemma digits_not_Nil: "digits n \<noteq> []"
  by (subst digits.simps) simp

lemma digits_isDigit: "c \<in> set (digits n) \<Longrightarrow> isDigit c"
proof (induction n rule: digits.induct)
  case (1 n)
  then show ?case
    by (subst (asm) (2) digits.simps) (auto simp: isDigit_digitChar split: if_splits)
qed

lemma parseDigits_snoc: "parseDigits (xs @ [c]) = 10 * parseDigits xs + int (digitVal c)"
  by (simp add: parseDigits_def)

lemma parseDigits_digits: "parseDigits (digits n) = int n"
proof (induction n rule: digits.induct)
  case (1 n)
  show ?case
  proof (cases "n < 10")
    case True
    then show ?thesis
      by (subst digits.simps) (simp add: parseDigits_def digitVal_digitChar)
  next
    case False
    then have "parseDigits (digits n) = 10 * int (n div 10) + int (n mod 10)"
      using 1 by (subst digits.simps) (simp add: parseDigits_snoc digitVal_digitChar)
    then show ?thesis by presburger
  qed
qed

lemma isDigit_plain: "isDigit c \<Longrightarrow> c \<noteq> SP \<and> c \<noteq> LF \<and> c \<noteq> CHR ''-'' \<and> c \<noteq> CHR ''+''"
  by (auto simp: isDigit_def)

lemma spaceRune_digit:
  assumes "isDigit c \<or> c = CHR ''-''"
  shows "spaceRune (c # s) = 0"
proof -
  have lo: "45 \<le> (of_char c :: nat)" and hi: "(of_char c :: nat) \<le> 57"
    using assms by (auto simp: isDigit_def)
  have ne: "c \<noteq> CHR 0x09" "c \<noteq> CHR 0x0B" "c \<noteq> CHR 0x0C" "c \<noteq> CHR 0x0D" "c \<noteq> CHR 0x20"
    "c \<noteq> CHR 0xC2" "c \<noteq> CHR 0xE1" "c \<noteq> CHR 0xE2" "c \<noteq> CHR 0xE3"
    using lo hi by auto
  show ?thesis
  proof (cases s)
    case Nil
    then show ?thesis using ne by (simp add: spaceRune_def)
  next
    case (Cons d s1)
    then show ?thesis using ne by (cases s1) (simp_all add: spaceRune_def)
  qed
qed

lemma SkipSpace_digit: "isDigit c \<or> c = CHR ''-'' \<Longrightarrow> SkipSpace (c # s) = Some (c # s)"
  by (subst SkipSpace.simps) (auto simp: spaceRune_digit isDigit_def)

lemma takeWhile_digits: "takeWhile isDigit (digits n) = digits n"
  by (simp add: digits_isDigit)

lemma Sscanf_d_token:
  assumes "t \<noteq> []" "\<forall>c\<in>set t. isDigit c"
  shows "Sscanf_d t =
           (if parseDigits t < - (2 ^ 63) \<or> 2 ^ 63 \<le> parseDigits t then None
            else Some (word_of_int (parseDigits t)))"
    and "Sscanf_d (CHR ''-'' # t) =
           (if - parseDigits t < - (2 ^ 63) \<or> 2 ^ 63 \<le> - parseDigits t then None
            else Some (word_of_int (- parseDigits t)))"
proof -
  have tw: "takeWhile isDigit t = t" using assms(2) by simp
  have h: "isDigit (hd t)" using assms by simp
  have sk: "SkipSpace t = Some t"
    using SkipSpace_digit [of "hd t" "tl t"] h assms(1) by simp
  have sk': "SkipSpace (CHR ''-'' # t) = Some (CHR ''-'' # t)"
    by (rule SkipSpace_digit) simp
  show "Sscanf_d t =
           (if parseDigits t < - (2 ^ 63) \<or> 2 ^ 63 \<le> parseDigits t then None
            else Some (word_of_int (parseDigits t)))"
    unfolding Sscanf_d_def sk using isDigit_plain [OF h] assms(1)
    by (simp add: tw Let_def)
  show "Sscanf_d (CHR ''-'' # t) =
           (if - parseDigits t < - (2 ^ 63) \<or> 2 ^ 63 \<le> - parseDigits t then None
            else Some (word_of_int (- parseDigits t)))"
    unfolding Sscanf_d_def sk' using assms(1)
    by (simp add: tw Let_def)
qed

lemma Sscanf_d_Sprintf_d: "Sscanf_d (Sprintf_d w) = Some w"
proof -
  define t where "t = digits (nat \<bar>sint w\<bar>)"
  have t: "t \<noteq> []" "\<forall>c\<in>set t. isDigit c"
    unfolding t_def using digits_not_Nil digits_isDigit by auto
  have pd: "parseDigits t = \<bar>sint w\<bar>" unfolding t_def by (simp add: parseDigits_digits)
  have lo: "- (2 ^ 63) \<le> sint w" using sint_ge [of w] by simp
  have hi: "sint w < 2 ^ 63" using sint_lt [of w] by simp
  show ?thesis
  proof (cases "sint w < 0")
    case True
    then have "Sprintf_d w = CHR ''-'' # t" by (simp add: Sprintf_d_def t_def abs_if)
    moreover have "- parseDigits t = sint w" using True pd by simp
    ultimately show ?thesis using Sscanf_d_token(2) [OF t] lo hi by simp
  next
    case False
    then have "Sprintf_d w = t" by (simp add: Sprintf_d_def t_def abs_if)
    moreover have "parseDigits t = sint w" using False pd by simp
    ultimately show ?thesis using Sscanf_d_token(1) [OF t] lo hi by simp
  qed
qed

lemma Sprintf_d_chars:
  assumes "c \<in> set (Sprintf_d w)"
  shows "c \<noteq> SP \<and> c \<noteq> LF"
proof -
  have "c = CHR ''-'' \<or> isDigit c"
    using assms digits_isDigit unfolding Sprintf_d_def by (cases "sint w < 0") auto
  then show ?thesis using isDigit_plain [of c] by auto
qed

subsection \<open>Decoding an encoded frame\<close>

lemma hexDigit_in: "hexDigit n \<in> set hextable"
  unfolding hexDigit_def by (rule nth_mem) (simp add: hextable_def)

lemma hexDigit_plain: "hexDigit n \<noteq> SP" "hexDigit n \<noteq> LF"
  using hexDigit_in [of n] unfolding hextable_def by auto

lemma Sprintf_08x_chars: "c \<in> set (Sprintf_08x v) \<Longrightarrow> c \<noteq> SP \<and> c \<noteq> LF"
  unfolding Sprintf_08x_def using hexDigit_plain by auto

lemma length_Sprintf_08x: "length (Sprintf_08x v) = 8"
  by (simp add: Sprintf_08x_def)

lemma hexEncodeToString_chars: "c \<in> set (hexEncodeToString bs) \<Longrightarrow> c \<noteq> SP \<and> c \<noteq> LF"
  by (induction bs) (auto simp: hexDigit_plain)

lemma bodyChecksum_plain: "SP \<notin> set (bodyChecksum body)" "LF \<notin> set (bodyChecksum body)"
  "length (bodyChecksum body) = 8"
  using Sprintf_08x_chars by (auto simp: bodyChecksum_def length_Sprintf_08x)

lemma buildBodyString_eq:
  "buildBodyString f =
     RequestID f @ SP # Code f @ (if Payload f = [] then [] else SP # EncodeToString (Payload f))"
  by (simp add: buildBodyString_def Let_def)

lemma HasPrefix_append: "HasPrefix (pre @ s) pre"
  by (simp add: HasPrefix_def)

lemma TrimPrefix_append: "TrimPrefix (pre @ s) pre = s"
  by (simp add: TrimPrefix_def HasPrefix_def)

lemma TrimSuffix_append: "TrimSuffix (s @ suf) suf = s"
  by (simp add: TrimSuffix_def HasSuffix_def)

text \<open>The fields of a wire line whose first three fields hold no space.\<close>

lemma wire_fields:
  assumes "SP \<notin> set l" "SP \<notin> set ck" "SP \<notin> set rid"
  shows "Split (TrimPrefix (TrimSuffix (ProtocolPrefix @ l @ [SP] @ ck @ [SP] @ rid @ SP # rest @ [LF]) [LF])
           ProtocolPrefix) = l # ck # rid # Split rest"
proof -
  have "ProtocolPrefix @ l @ [SP] @ ck @ [SP] @ rid @ SP # rest @ [LF]
      = (ProtocolPrefix @ l @ [SP] @ ck @ [SP] @ rid @ SP # rest) @ [LF]" by simp
  then have "TrimPrefix (TrimSuffix (ProtocolPrefix @ l @ [SP] @ ck @ [SP] @ rid @ SP # rest @ [LF]) [LF])
      ProtocolPrefix = l @ SP # ck @ SP # rid @ SP # rest"
    by (simp only: TrimSuffix_append TrimPrefix_append) simp
  then show ?thesis using assms by (simp add: Split_field)
qed

lemma Split_body:
  assumes "SP \<notin> set (Code f)"
  shows "Split (Code f @ (if Payload f = [] then [] else SP # EncodeToString (Payload f)))
       = (if Payload f = [] then [Code f] else [Code f, EncodeToString (Payload f)])"
proof -
  have "SP \<notin> set (EncodeToString (Payload f))" using EncodeToString_chars by blast
  then show ?thesis using assms by (simp add: Split_field Split_no_space)
qed

text \<open>What \<open>ParseFrame\<close> does once the line has the prefix and at least four fields.\<close>

lemma ParseFrame_fields:
  assumes "HasPrefix data ProtocolPrefix"
    and "Split (TrimPrefix (TrimSuffix data [LF]) ProtocolPrefix) = l # ck # rid # code # extra"
  shows "ParseFrame data =
     (case Sscanf_d l of
        None \<Rightarrow> Inl ErrInvalidBodyLength
      | Some n \<Rightarrow>
          if length ck \<noteq> 8 then Inl ErrInvalidChecksumFormat
          else (case (case extra of [] \<Rightarrow> Some [] | b # _ \<Rightarrow> DecodeString b) of
                  None \<Rightarrow> Inl ErrInvalidPayloadEncoding
                | Some p \<Rightarrow>
                    if bodyChecksum (buildBodyString
                         \<lparr>RequestID = rid, Code = code, Payload = p, BodyLength = n,
                          BodyChecksum = ck\<rparr>) \<noteq> ck
                    then Inl ErrChecksumMismatch
                    else Inr \<lparr>RequestID = rid, Code = code, Payload = p, BodyLength = n,
                              BodyChecksum = ck\<rparr>))"
  using assms
  by (simp add: ParseFrame_def Let_def split: option.splits list.splits)

lemma ParseFrame_Encode:
  assumes "SP \<notin> set (RequestID f)" "SP \<notin> set (Code f)"
    and ck: "BodyChecksum f = bodyChecksum (buildBodyString f)"
  shows "ParseFrame (Encode f) = Inr f"
proof -
  let ?rest = "Code f @ (if Payload f = [] then [] else SP # EncodeToString (Payload f))"
  have l: "SP \<notin> set (Sprintf_d (BodyLength f))" using Sprintf_d_chars by blast
  have c: "SP \<notin> set (BodyChecksum f)" unfolding ck by (rule bodyChecksum_plain)
  have enc: "Encode f = ProtocolPrefix @ Sprintf_d (BodyLength f) @ [SP] @ BodyChecksum f @ [SP]
      @ RequestID f @ SP # ?rest @ [LF]"
    by (simp add: Encode_def buildBodyString_eq)
  have pre: "HasPrefix (Encode f) ProtocolPrefix" unfolding Encode_def by (simp add: HasPrefix_def)
  have parts: "Split (TrimPrefix (TrimSuffix (Encode f) [LF]) ProtocolPrefix)
      = Sprintf_d (BodyLength f) # BodyChecksum f # RequestID f # Split ?rest"
    unfolding enc by (rule wire_fields [OF l c assms(1)])
  have len: "length (BodyChecksum f) = 8" unfolding ck by (rule bodyChecksum_plain)
  have f: "\<lparr>RequestID = RequestID f, Code = Code f, Payload = Payload f,
      BodyLength = BodyLength f, BodyChecksum = BodyChecksum f\<rparr> = f"
    by simp
  show ?thesis
  proof (cases "Payload f = []")
    case True
    then have f0: "\<lparr>RequestID = RequestID f, Code = Code f, Payload = [],
        BodyLength = BodyLength f, BodyChecksum = BodyChecksum f\<rparr> = f"
      by simp
    from True have "Split (TrimPrefix (TrimSuffix (Encode f) [LF]) ProtocolPrefix)
      = Sprintf_d (BodyLength f) # BodyChecksum f # RequestID f # Code f # []"
      using parts Split_body [OF assms(2)] by simp
    from ParseFrame_fields [OF pre this]
    have "ParseFrame (Encode f) =
        (if bodyChecksum (buildBodyString f) \<noteq> BodyChecksum f then Inl ErrChecksumMismatch
         else Inr f)"
      using len by (simp add: Sscanf_d_Sprintf_d f0)
    then show ?thesis using ck by simp
  next
    case False
    then have "Split (TrimPrefix (TrimSuffix (Encode f) [LF]) ProtocolPrefix)
      = Sprintf_d (BodyLength f) # BodyChecksum f # RequestID f # Code f
          # [EncodeToString (Payload f)]"
      using parts Split_body [OF assms(2)] by simp
    from ParseFrame_fields [OF pre this]
    have "ParseFrame (Encode f) =
        (if bodyChecksum (buildBodyString f) \<noteq> BodyChecksum f then Inl ErrChecksumMismatch
         else Inr f)"
      using len by (simp add: Sscanf_d_Sprintf_d DecodeString_EncodeToString f)
    then show ?thesis using ck by simp
  qed
qed

lemma crcShift_numeral:
  "crcShift (numeral n) poly crc =
     crcShift (pred_numeral n) poly
       (if crc AND 1 = 1 then drop_bit 1 crc XOR poly else drop_bit 1 crc)"
  by (simp add: numeral_eq_Suc)

lemma Checksum_eval: "Checksum data tab = crcUpdate 4294967295 tab data XOR 4294967295"
proof -
  have m: "(- 1 :: 32 word) = 4294967295" by simp
  have "NOT x = x XOR 4294967295" for x :: "32 word"
    using bit.xor_one_right [of x] unfolding m by simp
  moreover have "NOT (0 :: 32 word) = 4294967295" by simp
  ultimately show ?thesis unfolding Checksum_def by simp
qed

lemmas crc_eval = bodyChecksum_def Checksum_eval MakeTable_def CRCPolynomial_def crcShift_numeral
  Sprintf_08x_def hexDigit_def hextable_def


lemma SkipSpace_Nil: "SkipSpace [] = Some []"
  by (subst SkipSpace.simps) simp

lemma SkipSpace_Cons:
  "SkipSpace (c # s) =
     (if c = LF then None
      else if spaceRune (c # s) = 0 then Some (c # s)
      else SkipSpace (drop (spaceRune (c # s)) (c # s)))"
  by (subst SkipSpace.simps) simp

lemmas line_eval = HasPrefix_def HasSuffix_def TrimPrefix_def TrimSuffix_def ProtocolPrefix_def
  Sscanf_d_def SkipSpace_Cons SkipSpace_Nil spaceRune_def isDigit_def digitVal_def parseDigits_def
  DecodeString_def decodeMap_def encodeStd_def buildBodyString_def Let_def

lemma of_char_upperByte:
  "(of_char (upperByte c) :: nat) =
     (if 97 \<le> (of_char c :: nat) \<and> (of_char c :: nat) \<le> 122 then of_char c - 32 else of_char c)"
proof -
  have "(of_char c :: nat) - 32 < 256"
    by (rule le_less_trans [OF diff_le_self of_char_lt])
  then show ?thesis by (simp add: upperByte_def)
qed

lemma upperByte_not_SP: "c \<noteq> SP \<Longrightarrow> upperByte c \<noteq> SP"
proof
  assume c: "c \<noteq> SP" and "upperByte c = SP"
  then have "(of_char (upperByte c) :: nat) = 32" by simp
  then have "(of_char c :: nat) = 32"
    unfolding of_char_upperByte by (simp split: if_splits)
  then have "(of_char c :: nat) = of_char SP" by simp
  then have "c = SP" by (simp only: of_char_eq_iff)
  with c show False by simp
qed

lemma ToUpper_no_space:
  assumes "SP \<notin> set code" and "\<not> isASCII code \<Longrightarrow> SP \<notin> set (mapUpper code)"
  shows "SP \<notin> set (ToUpper mapUpper code)"
proof (cases "isASCII code")
  case True
  have "SP \<notin> set (map upperByte code)"
  proof
    assume "SP \<in> set (map upperByte code)"
    then obtain c where "c \<in> set code" "upperByte c = SP" by auto
    with assms(1) upperByte_not_SP [of c] show False by metis
  qed
  then show ?thesis using True by (simp add: ToUpper_def)
next
  case False
  then show ?thesis using assms(2) by (simp add: ToUpper_def)
qed

lemma updateBodyMetadata_fields:
  "RequestID (updateBodyMetadata f) = RequestID f" "Code (updateBodyMetadata f) = Code f"
  "Payload (updateBodyMetadata f) = Payload f"
  "buildBodyString (updateBodyMetadata f) = buildBodyString f"
  "BodyChecksum (updateBodyMetadata f) = bodyChecksum (buildBodyString f)"
  "BodyLength (updateBodyMetadata f) = of_nat (length (buildBodyString f))"
  by (simp_all add: updateBodyMetadata_def Let_def buildBodyString_def)

text \<open>
  C1. Round trip: a frame constructed from a code that holds no space, with any payload and
  any outcome of the random read, encodes to a line that decodes to the very same frame,
  so Code, Payload, RequestID, BodyLength and BodyChecksum are all the same. For a code
  with bytes beyond ASCII the upper-casing is the library's Unicode mapping, which is
  assumed not to produce a space.
\<close>

theorem C1_round_trip:
  assumes "SP \<notin> set code"
    and "\<not> isASCII code \<Longrightarrow> SP \<notin> set (mapUpper code)"
  shows "\<exists>f. newFrame mapUpper (Inr randBytes) code payload = Inr f \<and>
             ParseFrame (Encode f) = Inr f"
proof -
  define f where "f = updateBodyMetadata
     \<lparr>RequestID = hexEncodeToString randBytes, Code = ToUpper mapUpper code,
      Payload = payload, BodyLength = 0, BodyChecksum = []\<rparr>"
  have nf: "newFrame mapUpper (Inr randBytes) code payload = Inr f"
    by (simp add: newFrame_def f_def)
  have rid: "SP \<notin> set (RequestID f)"
    unfolding f_def updateBodyMetadata_fields using hexEncodeToString_chars by auto
  have cd: "SP \<notin> set (Code f)"
    unfolding f_def updateBodyMetadata_fields
    using ToUpper_no_space [of code mapUpper] assms by simp
  have ck: "BodyChecksum f = bodyChecksum (buildBodyString f)"
    unfolding f_def updateBodyMetadata_fields ..
  show ?thesis using nf ParseFrame_Encode [OF rid cd ck] by blast
qed

theorem C1_round_trip_witness:
  "SP \<notin> set ''get'' \<and> isASCII ''get'' \<and>
   (\<exists>f. newFrame id (Inr [CHR 0x00, CHR 0x00, CHR 0x00, CHR 0x2a]) ''get'' ''sdc:uuid'' = Inr f \<and>
        ParseFrame (Encode f) = Inr f)"
proof -
  have a: "SP \<notin> set ''get''" by simp
  have b: "isASCII ''get''" by (simp add: isASCII_def)
  have c: "\<not> isASCII ''get'' \<Longrightarrow> SP \<notin> set (id ''get'')" using b by simp
  show ?thesis
    by (intro conjI a b
        C1_round_trip [of "''get''" id "[CHR 0x00, CHR 0x00, CHR 0x00, CHR 0x2a]" "''sdc:uuid''", OF a c])
qed

lemma digits_numeral:
  "digits (numeral k) =
     (if (numeral k :: nat) < 10 then [digitChar (numeral k)]
      else digits (numeral k div 10) @ [digitChar (numeral k)])"
  by (rule digits.simps)

lemma digits_small: "n < 10 \<Longrightarrow> digits n = [digitChar n]"
  by (subst digits.simps) simp

lemmas print_eval = Encode_def ProtocolPrefix_def Sprintf_d_def digits_numeral digits_small
  digitChar_def buildBodyString_def Let_def char_of_def bit_Suc_0_iff

lemma EncodeToString_LF: "LF \<notin> set (EncodeToString p)"
  using EncodeToString_chars by blast

lemma Sprintf_d_LF: "LF \<notin> set (Sprintf_d n)"
  using Sprintf_d_chars by blast

lemmas frame_eval = newFrame_def updateBodyMetadata_def hexDigit_def hextable_def
  ToUpper_def isASCII_def upperByte_def enc64_def encodeStd_def char_of_def bit_Suc_0_iff

text \<open>
  C2, as stated, fails: the frame that \<open>newFrame\<close> builds from the code \<open>a\<close>, line feed,
  \<open>b\<close> encodes to a line with a line feed before its last byte.
\<close>

theorem C2_counterexample:
  "newFrame id (Inr [CHR 0x00, CHR 0x00, CHR 0x00, CHR 0x2a]) [CHR ''a'', LF, CHR ''b''] [] =
     Inr \<lparr>RequestID = ''0000002a'', Code = [CHR ''A'', LF, CHR ''B''], Payload = [],
          BodyLength = 12, BodyChecksum = ''724d7716''\<rparr> \<and>
   Encode \<lparr>RequestID = ''0000002a'', Code = [CHR ''A'', LF, CHR ''B''], Payload = [],
          BodyLength = 12, BodyChecksum = ''724d7716''\<rparr> =
     ''V2 12 724d7716 0000002a A'' @ [LF] @ ''B'' @ [LF] \<and>
   LF \<in> set (butlast (Encode \<lparr>RequestID = ''0000002a'', Code = [CHR ''A'', LF, CHR ''B''],
          Payload = [], BodyLength = 12, BodyChecksum = ''724d7716''\<rparr>))"
proof -
  have ck: "bodyChecksum (''0000002a A'' @ [LF] @ ''B'') = ''724d7716''"
    by (simp add: crc_eval)
  have nf: "newFrame id (Inr [CHR 0x00, CHR 0x00, CHR 0x00, CHR 0x2a]) [CHR ''a'', LF, CHR ''b''] [] =
     Inr \<lparr>RequestID = ''0000002a'', Code = [CHR ''A'', LF, CHR ''B''], Payload = [],
          BodyLength = 12, BodyChecksum = ''724d7716''\<rparr>"
    using ck by (simp add: frame_eval buildBodyString_def Let_def)
  have en: "Encode \<lparr>RequestID = ''0000002a'', Code = [CHR ''A'', LF, CHR ''B''], Payload = [],
          BodyLength = 12, BodyChecksum = ''724d7716''\<rparr> =
     ''V2 12 724d7716 0000002a A'' @ [LF] @ ''B'' @ [LF]"
    by (simp add: print_eval)
  show ?thesis unfolding en using nf by simp
qed

text \<open>
  C2, amended. For every frame, \<open>Encode\<close> returns the prefix, the decimal length, the
  checksum and the canonical body string, separated by single spaces and followed by a
  line feed; the body string is the request id, a space and the code, followed by a space
  and the base64 text of the payload only when the payload is not empty. The line ends
  with a line feed, and it holds no other line feed whenever the request id, the code and
  the checksum field hold none: the length and the base64 text never do.
\<close>

theorem C2_encode_format:
  "Encode f =
     ''V2 '' @ Sprintf_d (BodyLength f) @ '' '' @ BodyChecksum f @ '' '' @ buildBodyString f @ [LF] \<and>
   buildBodyString f =
     RequestID f @ '' '' @ Code f @
       (if Payload f \<noteq> [] then '' '' @ EncodeToString (Payload f) else []) \<and>
   last (Encode f) = LF \<and>
   (LF \<notin> set (RequestID f) \<and> LF \<notin> set (Code f) \<and> LF \<notin> set (BodyChecksum f)
      \<longrightarrow> LF \<notin> set (butlast (Encode f)))"
proof (intro conjI impI)
  show e: "Encode f =
     ''V2 '' @ Sprintf_d (BodyLength f) @ '' '' @ BodyChecksum f @ '' '' @ buildBodyString f @ [LF]"
    by (simp add: Encode_def ProtocolPrefix_def)
  show b: "buildBodyString f =
     RequestID f @ '' '' @ Code f @
       (if Payload f \<noteq> [] then '' '' @ EncodeToString (Payload f) else [])"
    by (simp add: buildBodyString_def Let_def)
  show "last (Encode f) = LF" by (simp add: Encode_def)
  assume h: "LF \<notin> set (RequestID f) \<and> LF \<notin> set (Code f) \<and> LF \<notin> set (BodyChecksum f)"
  have "LF \<notin> set (buildBodyString f)"
    unfolding b using h EncodeToString_LF [of "Payload f"] by simp
  moreover have "butlast (Encode f) =
      ''V2 '' @ Sprintf_d (BodyLength f) @ '' '' @ BodyChecksum f @ '' '' @ buildBodyString f"
    unfolding e by (simp add: butlast_append)
  ultimately show "LF \<notin> set (butlast (Encode f))"
    using h Sprintf_d_LF [of "BodyLength f"] by simp
qed

theorem C2_encode_format_witness:
  "LF \<notin> set ''0000002a'' \<and> LF \<notin> set ''GET'' \<and> LF \<notin> set ''63adbf80'' \<and>
   Encode \<lparr>RequestID = ''0000002a'', Code = ''GET'', Payload = ''sdc:uuid'',
           BodyLength = 25, BodyChecksum = ''63adbf80''\<rparr> =
     ''V2 25 63adbf80 0000002a GET c2RjOnV1aWQ='' @ [LF] \<and>
   LF \<notin> set (butlast (Encode \<lparr>RequestID = ''0000002a'', Code = ''GET'', Payload = ''sdc:uuid'',
           BodyLength = 25, BodyChecksum = ''63adbf80''\<rparr>))"
proof -
  have h: "LF \<notin> set ''0000002a'' \<and> LF \<notin> set ''GET'' \<and> LF \<notin> set ''63adbf80''" by simp
  have en: "Encode \<lparr>RequestID = ''0000002a'', Code = ''GET'', Payload = ''sdc:uuid'',
           BodyLength = 25, BodyChecksum = ''63adbf80''\<rparr> =
     ''V2 25 63adbf80 0000002a GET c2RjOnV1aWQ='' @ [LF]"
    by (simp add: print_eval enc64_def encodeStd_def)
  have "LF \<notin> set (butlast (Encode \<lparr>RequestID = ''0000002a'', Code = ''GET'',
           Payload = ''sdc:uuid'', BodyLength = 25, BodyChecksum = ''63adbf80''\<rparr>))"
    by (rule C2_encode_format [of "\<lparr>RequestID = ''0000002a'', Code = ''GET'',
           Payload = ''sdc:uuid'', BodyLength = 25, BodyChecksum = ''63adbf80''\<rparr>",
         THEN conjunct2, THEN conjunct2, THEN conjunct2, THEN mp]) simp
  with h en show ?thesis by (intro conjI) simp_all
qed

end
